theory Spec2Isabelle
  imports Main "HOL-Library.Sublist"
begin

section \<open>Data model (types.ts)\<close>

text \<open>
  The interfaces of \<^verbatim>\<open>types.ts\<close>. Optional fields (\<^verbatim>\<open>field?: T\<close>) are options, the
  string-literal unions are datatypes. Three field names are prefixed because a record field
  of that name cannot be declared here: \<^verbatim>\<open>id\<close> is \<open>task_id\<close>, \<^verbatim>\<open>text\<close> is
  \<open>res_text\<close>, and the fields of \<^verbatim>\<open>Source\<close> carry the prefix \<open>src_\<close>.
\<close>

record Source =
  src_title :: string
  src_url :: string
  src_snippet :: "string option"
  src_source :: "string option"

record SearchResult =
  res_text :: string
  res_sources :: "Source list"

datatype task_status = Pending | Running | Completed | Failed

datatype task_priority = Normal | High

record AgentTask =
  task_id :: string
  title :: string
  agentRole :: string
  description :: "string option"
  goal :: string
  status :: task_status
  priority :: "task_priority option"
  dependencies :: "string list option"
  result :: "SearchResult option"

datatype AgentState =
  IDLE | PLANNING | REVIEWING | SEARCHING | ANALYZING | SYNTHESIZING | COMPLETE | ERROR

section \<open>Handlers on the task list (App component)\<close>

text \<open>
  Each handler builds a function \<^verbatim>\<open>update\<close> on task lists and applies it to
  \<^verbatim>\<open>tasksRef.current\<close>, the list the scheduler reads, and to the React state
  \<^verbatim>\<open>activeTasks\<close>, which is only rendered and is left out here. The definitions below are
  that \<^verbatim>\<open>update\<close> function; \<open>updateStatus_list\<close> is the one of \<^verbatim>\<open>updateStatus\<close>
  inside \<^verbatim>\<open>handleStartExecution\<close>.
\<close>

definition toggleTaskPriority :: "string \<Rightarrow> AgentTask list \<Rightarrow> AgentTask list" where
  "toggleTaskPriority taskId tasks =
     map (\<lambda>t. if task_id t = taskId \<and> status t = Pending
              then t\<lparr>priority := Some (if priority t = Some High then Normal else High)\<rparr>
              else t) tasks"

definition handleDeleteTask :: "string \<Rightarrow> AgentTask list \<Rightarrow> AgentTask list" where
  "handleDeleteTask taskId tasks =
     map (\<lambda>t. t\<lparr>dependencies :=
                 Some (case dependencies t of
                         None \<Rightarrow> []
                       | Some ds \<Rightarrow> filter (\<lambda>d. d \<noteq> taskId) ds)\<rparr>)
         (filter (\<lambda>t. task_id t \<noteq> taskId) tasks)"

definition updateStatus_list :: "string \<Rightarrow> task_status \<Rightarrow> AgentTask list \<Rightarrow> AgentTask list" where
  \<comment> \<open>the \<^verbatim>\<open>update\<close> function inside \<^verbatim>\<open>updateStatus\<close>\<close>
  "updateStatus_list i st list = map (\<lambda>t. if task_id t = i then t\<lparr>status := st\<rparr> else t) list"

section \<open>The single-task executor (geminiService)\<close>

text \<open>
  The generative-AI client and the platform's URL parser are outside the repository. Of the
  client's response only the fields the code reads are modelled. A thrown exception or a
  rejected promise is the value \<open>Inl Thrown\<close>. The client call and the URL parser are
  parameters: \<open>generateContent\<close> maps the request to what the awaited call yields, and
  \<open>URL_hostname\<close> maps a string to the host name of \<^verbatim>\<open>new URL(s)\<close>, or to \<open>None\<close>
  where the constructor throws.
\<close>

datatype js_error = Thrown

record WebChunk =
  web_title :: "string option"
  web_uri :: "string option"

record GroundingChunk =
  web :: "WebChunk option"

record GroundingMetadata =
  groundingChunks :: "GroundingChunk list option"

record Candidate =
  groundingMetadata :: "GroundingMetadata option"

record GenerateContentResponse =
  response_text :: "string option"
  candidates :: "Candidate list option"

record GenerateContentRequest =
  req_model :: string
  req_contents :: string
  req_systemInstruction :: string

record Platform =
  generateContent :: "GenerateContentRequest \<Rightarrow> js_error + GenerateContentResponse"
  URL_hostname :: "string \<Rightarrow> string option"

abbreviation NL :: string where
  "NL \<equiv> [CHR 0x0A]"

definition SEARCH_MODEL :: string where
  "SEARCH_MODEL = ''gemini-2.5-flash''"

definition or_else :: "string option \<Rightarrow> string \<Rightarrow> string" where
  \<comment> \<open>\<^verbatim>\<open>x || d\<close> on an optional string: undefined and the empty string are falsy\<close>
  "or_else x d = (case x of None \<Rightarrow> d | Some s \<Rightarrow> if s = [] then d else s)"

fun replace_first :: "string \<Rightarrow> string \<Rightarrow> string \<Rightarrow> string" where
  \<comment> \<open>\<^verbatim>\<open>s.replace(pat, rep)\<close> with a string pattern: the first occurrence only\<close>
  "replace_first pat rep [] = (if pat = [] then rep else [])"
| "replace_first pat rep (c # cs) =
     (if prefix pat (c # cs) then rep @ drop (length pat) (c # cs)
      else c # replace_first pat rep cs)"

fun findIndex :: "('a \<Rightarrow> bool) \<Rightarrow> 'a list \<Rightarrow> nat option" where
  \<comment> \<open>\<open>None\<close> is the \<^verbatim>\<open>-1\<close> of \<^verbatim>\<open>Array.prototype.findIndex\<close>\<close>
  "findIndex P [] = None"
| "findIndex P (x # xs) = (if P x then Some 0 else map_option Suc (findIndex P xs))"

definition dedupe_by_url :: "Source list \<Rightarrow> Source list" where
  "dedupe_by_url a =
     map fst (filter (\<lambda>(v, i). findIndex (\<lambda>t. src_url t = src_url v) a = Some i)
                     (zip a [0..<length a]))"

fun push_chunks :: "(string \<Rightarrow> string option) \<Rightarrow> GroundingChunk list \<Rightarrow> Source list
                    \<Rightarrow> js_error + Source list" where
  \<comment> \<open>the \<^verbatim>\<open>chunks.forEach\<close> of \<^verbatim>\<open>extractSources\<close>; a throwing URL constructor ends it\<close>
  "push_chunks host [] sources = Inr sources"
| "push_chunks host (chunk # chunks) sources =
     (case web chunk of
        None \<Rightarrow> push_chunks host chunks sources
      | Some w \<Rightarrow>
          (case host (or_else (web_uri w) ''https://google.com'') of
             None \<Rightarrow> Inl Thrown
           | Some h \<Rightarrow>
               push_chunks host chunks
                 (sources @ [\<lparr>src_title = or_else (web_title w) ''Web Source'',
                              src_url = or_else (web_uri w) ''#'',
                              src_snippet = Some [],
                              src_source = Some (replace_first ''www.'' [] h)\<rparr>])))"

definition extractSources :: "(string \<Rightarrow> string option) \<Rightarrow> GenerateContentResponse
                              \<Rightarrow> js_error + Source list" where
  "extractSources host response =
     (case candidates response of
        None \<Rightarrow> Inr []
      | Some [] \<Rightarrow> Inr []
      | Some (c # _) \<Rightarrow>
          (case groundingMetadata c of
             None \<Rightarrow> Inr []
           | Some gm \<Rightarrow>
               (case groundingChunks gm of
                  None \<Rightarrow> Inr []
                | Some chunks \<Rightarrow>
                    (case push_chunks host chunks [] of
                       Inl e \<Rightarrow> Inl e
                     | Inr sources \<Rightarrow> Inr (dedupe_by_url sources)))))"

definition systemInstruction :: "AgentTask \<Rightarrow> string \<Rightarrow> string" where
  "systemInstruction task sharedContext =
     ''You are a specialized AI Agent with the role: '' @ agentRole task @ ''.'' @ NL @
     ''    '' @ (case description task of
                   None \<Rightarrow> []
                 | Some d \<Rightarrow> if d = [] then [] else ''Your Expertise/Capabilities: '' @ d) @ NL @
     ''    '' @ NL @
     ''    Your specific Goal: '' @ goal task @ NL @
     ''    '' @ NL @
     ''    You are part of a collaborative research team. '' @ NL @
     ''    '' @ (if sharedContext = [] then []
                 else NL @
     ''    IMPORTANT - TEAM CONTEXT (Findings from other agents):'' @ NL @
     ''    The following information has already been gathered by your team members. '' @ NL @
     ''    Use this context to inform your search, avoid redundancy, and build upon their work.'' @ NL @
     ''    If their findings answer part of your goal, cite them (e.g. '' @ [CHR 0x22] @
          ''As the Financial Analyst found...'' @ [CHR 0x22] @ '').'' @ NL @
     ''    '' @ NL @
     ''    --- START OF TEAM CONTEXT ---'' @ NL @
     ''    '' @ sharedContext @ NL @
     ''    --- END OF TEAM CONTEXT ---'' @ NL @
     ''    '') @ NL @
     ''    '' @ NL @
     ''    Use Google Search to find high-quality, factual information. '' @ NL @
     ''    Do not hallucinate. Rely on the search results.'' @ NL @
     ''    Summarize your findings clearly for the Chief Orchestrator. Use structured formatting (bullet points, headers) to make it easy to read.'' @ NL @
     ''    ''"

definition executeResearchTask_try :: "Platform \<Rightarrow> AgentTask \<Rightarrow> string \<Rightarrow> js_error + SearchResult" where
  \<comment> \<open>the body of the \<^verbatim>\<open>try\<close> block\<close>
  "executeResearchTask_try pf task sharedContext =
     (case generateContent pf
             \<lparr>req_model = SEARCH_MODEL,
              req_contents = ''Perform your assigned task: '' @ goal task,
              req_systemInstruction = systemInstruction task sharedContext\<rparr> of
        Inl e \<Rightarrow> Inl e
      | Inr response \<Rightarrow>
          (let text = or_else (response_text response) ''No information found.'' in
           case extractSources (URL_hostname pf) response of
             Inl e \<Rightarrow> Inl e
           | Inr sources \<Rightarrow> Inr \<lparr>res_text = text, res_sources = sources\<rparr>))"

definition executeResearchTask :: "Platform \<Rightarrow> AgentTask \<Rightarrow> string \<Rightarrow> js_error + SearchResult" where
  \<comment> \<open>the settled promise: \<open>Inr\<close> fulfilled, \<open>Inl\<close> rejected\<close>
  "executeResearchTask pf task sharedContext =
     (case executeResearchTask_try pf task sharedContext of
        Inr r \<Rightarrow> Inr r
      | Inl error \<Rightarrow>
          Inr \<lparr>res_text = ''Failed to retrieve information for this task.'', res_sources = []\<rparr>)"

section \<open>The scheduler (handleStartExecution, processQueue)\<close>

definition MAX_CONCURRENCY :: nat where
  "MAX_CONCURRENCY = 2"

definition executableTasks :: "AgentTask list \<Rightarrow> AgentTask list" where
  \<comment> \<open>\<^verbatim>\<open>pending\<close>, \<^verbatim>\<open>completed\<close> and \<^verbatim>\<open>executableTasks\<close> of one loop iteration\<close>
  "executableTasks currentTasks =
     (let pending = filter (\<lambda>t. status t = Pending) currentTasks;
          completed = filter (\<lambda>t. status t = Completed) currentTasks
      in filter (\<lambda>t. case dependencies t of
                        None \<Rightarrow> True
                      | Some deps \<Rightarrow>
                          deps = [] \<or>
                          list_all (\<lambda>depId. list_ex (\<lambda>c. task_id c = depId) completed) deps)
                pending)"

definition nextTask_of :: "AgentTask list \<Rightarrow> AgentTask option" where
  \<comment> \<open>\<^verbatim>\<open>executableTasks.find(t => t.priority === 'high') || executableTasks[0]\<close>;
      \<open>None\<close> is \<^verbatim>\<open>undefined\<close>\<close>
  "nextTask_of executable =
     (case find (\<lambda>t. priority t = Some High) executable of
        Some t \<Rightarrow> Some t
      | None \<Rightarrow> (case executable of [] \<Rightarrow> None | t # _ \<Rightarrow> Some t))"

fun join :: "string \<Rightarrow> string list \<Rightarrow> string" where
  \<comment> \<open>\<^verbatim>\<open>Array.prototype.join\<close> on strings\<close>
  "join sep [] = []"
| "join sep [x] = x"
| "join sep (x # y # ys) = x @ sep @ join sep (y # ys)"

definition context_block :: "(string \<rightharpoonup> SearchResult) \<Rightarrow> AgentTask \<Rightarrow> string" where
  "context_block m t =
     ''[Context from Agent: '' @ agentRole t @ '' (Task: '' @ title t @ '')]:'' @ NL @
     ''Goal: '' @ goal t @ NL @
     ''Findings: '' @ or_else (map_option res_text (m (task_id t))) ''No info''"

definition contextString_of :: "(string \<rightharpoonup> SearchResult) \<Rightarrow> AgentTask list \<Rightarrow> string" where
  "contextString_of m completed =
     join (NL @ NL @ ''---'' @ NL @ NL) (map (context_block m) completed)"

text \<open>
  The state of one run. \<open>tasksRef\<close> is \<^verbatim>\<open>tasksRef.current\<close>. \<open>inflight\<close> holds, for every
  \<^verbatim>\<open>executeResearchTask\<close> promise not yet settled, the task and the context it was called
  with. \<open>main_done\<close> says that the \<^verbatim>\<open>processQueue\<close> call awaited by
  \<^verbatim>\<open>handleStartExecution\<close> has returned; \<open>spawned\<close> counts the \<^verbatim>\<open>processQueue\<close> calls
  started by completion handlers that are in their 50 ms delay.
\<close>

record sched_state =
  tasksRef :: "AgentTask list"
  taskResultsMap :: "string \<rightharpoonup> SearchResult"
  inflight :: "(AgentTask \<times> string) list"
  main_done :: bool
  spawned :: nat
  agentState :: AgentState
  finalResults :: "(AgentTask \<times> SearchResult) list option"

definition updateStatus :: "string \<Rightarrow> task_status \<Rightarrow> sched_state \<Rightarrow> sched_state" where
  "updateStatus i st s = s\<lparr>tasksRef := updateStatus_list i st (tasksRef s)\<rparr>"

datatype loop_exit = Delay | Break | Return

definition processQueue_iter :: "sched_state \<Rightarrow> loop_exit \<times> sched_state" where
  \<comment> \<open>one pass through the body of \<^verbatim>\<open>while (true)\<close>: up to the 50 ms delay (\<open>Delay\<close>, the loop
      goes on), a \<^verbatim>\<open>break\<close> or a \<^verbatim>\<open>return\<close>\<close>
  "processQueue_iter s =
     (let currentTasks = tasksRef s;
          pending = filter (\<lambda>t. status t = Pending) currentTasks;
          running = filter (\<lambda>t. status t = Running) currentTasks;
          completed = filter (\<lambda>t. status t = Completed) currentTasks
      in if length pending = 0 \<and> length running = 0 then (Break, s)
         else
           let executable = executableTasks currentTasks
           in if length running < MAX_CONCURRENCY \<and> length executable > 0 then
                (case nextTask_of executable of
                   Some nextTask \<Rightarrow>
                     (let s1 = updateStatus (task_id nextTask) Running s;
                          contextString = contextString_of (taskResultsMap s1) completed
                      in (Delay, s1\<lparr>inflight := inflight s1 @ [(nextTask, contextString)]\<rparr>))
                 | None \<Rightarrow> (Delay, s))
              else if length pending > 0 \<and> length running = 0 \<and> length executable = 0 then
                (Break, s)
              else if length running \<ge> MAX_CONCURRENCY then (Return, s)
              else (Return, s))"

definition spawn_processQueue :: "sched_state \<Rightarrow> sched_state" where
  \<comment> \<open>a call of \<^verbatim>\<open>processQueue()\<close> that nobody awaits: its first pass runs at once\<close>
  "spawn_processQueue s =
     (case processQueue_iter s of
        (Delay, s') \<Rightarrow> s'\<lparr>spawned := Suc (spawned s')\<rparr>
      | (_, s') \<Rightarrow> s')"

definition then_callback :: "AgentTask \<Rightarrow> SearchResult \<Rightarrow> sched_state \<Rightarrow> sched_state" where
  \<comment> \<open>the handler given to \<^verbatim>\<open>executeResearchTask(nextTask, contextString).then\<close>\<close>
  "then_callback nextTask res s =
     (let s1 = s\<lparr>taskResultsMap := (taskResultsMap s)(task_id nextTask \<mapsto> res)\<rparr>;
          s2 = updateStatus (task_id nextTask) Completed s1
      in spawn_processQueue s2)"

definition wait_condition :: "AgentTask list \<Rightarrow> bool" where
  \<comment> \<open>the condition of the wait loop of \<^verbatim>\<open>handleStartExecution\<close>\<close>
  "wait_condition tasks = list_ex (\<lambda>t. status t \<noteq> Completed \<and> status t \<noteq> Failed) tasks"

definition finalResults_of :: "sched_state \<Rightarrow> (AgentTask \<times> SearchResult) list" where
  "finalResults_of s =
     map (\<lambda>task. (task, case taskResultsMap s (task_id task) of
                          Some r \<Rightarrow> r
                        | None \<Rightarrow> \<lparr>res_text = ''Failed'', res_sources = []\<rparr>))
         (tasksRef s)"

text \<open>
  JavaScript runs one job at a time, so the run is a sequence of atomic steps. An event names
  the job that runs next: the awaited \<^verbatim>\<open>processQueue\<close> call wakes from its delay
  (\<open>Tick_main\<close>), one started by a completion handler wakes (\<open>Tick_spawned\<close>), the \<open>k\<close>-th
  outstanding executor call settles, the platform having behaved as \<open>pf\<close> (\<open>Resolve k pf\<close>),
  the user clicks the priority star of a task (\<open>Toggle\<close>, offered only while the agent state
  is \<^verbatim>\<open>SEARCHING\<close>), or the wait loop of \<^verbatim>\<open>handleStartExecution\<close> tests its condition
  (\<open>Poll\<close>). An event that is not enabled leaves the state as it is. The review handlers are
  offered only in the agent state \<^verbatim>\<open>REVIEWING\<close>, which a run never has, so they are no
  events. One run is modelled: replacing the task list during a run (a new research, another
  thread) is outside it.
\<close>

datatype event = Tick_main | Tick_spawned | Resolve nat Platform | Toggle string | Poll

fun step :: "event \<Rightarrow> sched_state \<Rightarrow> sched_state" where
  "step Tick_main s =
     (if main_done s then s
      else case processQueue_iter s of
             (Delay, s') \<Rightarrow> s'
           | (_, s') \<Rightarrow> s'\<lparr>main_done := True\<rparr>)"
| "step Tick_spawned s =
     (if spawned s = 0 then s
      else case processQueue_iter s of
             (Delay, s') \<Rightarrow> s'
           | (_, s') \<Rightarrow> s'\<lparr>spawned := spawned s' - 1\<rparr>)"
| "step (Resolve k pf) s =
     (if k < length (inflight s) then
        (let (nextTask, contextString) = inflight s ! k;
             s0 = s\<lparr>inflight := take k (inflight s) @ drop (Suc k) (inflight s)\<rparr>
         in case executeResearchTask pf nextTask contextString of
              Inr res \<Rightarrow> then_callback nextTask res s0
            | Inl e \<Rightarrow> s0)
      else s)"
| "step (Toggle taskId) s =
     (if agentState s = SEARCHING
      then s\<lparr>tasksRef := toggleTaskPriority taskId (tasksRef s)\<rparr>
      else s)"
| "step Poll s =
     (if main_done s \<and> agentState s = SEARCHING then
        (if wait_condition (tasksRef s) then s
         else s\<lparr>agentState := SYNTHESIZING, finalResults := Some (finalResults_of s)\<rparr>)
      else s)"

definition initial_state :: "AgentTask list \<Rightarrow> sched_state" where
  \<comment> \<open>on entry: the agent state set to \<^verbatim>\<open>SEARCHING\<close>, a fresh result map, nothing dispatched\<close>
  "initial_state tasks =
     \<lparr>tasksRef = tasks, taskResultsMap = Map.empty, inflight = [],
      main_done = False, spawned = 0, agentState = SEARCHING, finalResults = None\<rparr>"

definition handleStartExecution :: "AgentTask list \<Rightarrow> sched_state" where
  \<comment> \<open>the state when \<^verbatim>\<open>handleStartExecution\<close> first suspends, \<^verbatim>\<open>tasksRef.current\<close> being
      \<open>tasks\<close>: the first pass of the awaited \<^verbatim>\<open>processQueue\<close> call has run\<close>
  "handleStartExecution tasks =
     (case processQueue_iter (initial_state tasks) of
        (Delay, s') \<Rightarrow> s'
      | (_, s') \<Rightarrow> s'\<lparr>main_done := True\<rparr>)"

fun run :: "event list \<Rightarrow> sched_state \<Rightarrow> sched_state" where
  "run [] s = s"
| "run (e # es) s = run es (step e s)"

section \<open>Notions used to state the properties\<close>

text \<open>
  \<open>newly_running before after i\<close>: the task at position \<open>i\<close> was not running in the list
  \<open>before\<close> and is running in the list \<open>after\<close>. \<open>dependencies_completed tasks t\<close>: every
  id in the dependency list of \<open>t\<close> is the id of a completed task of \<open>tasks\<close>.
\<close>

definition newly_running :: "AgentTask list \<Rightarrow> AgentTask list \<Rightarrow> nat \<Rightarrow> bool" where
  "newly_running before after i =
     (i < length before \<and> i < length after \<and>
      status (before ! i) \<noteq> Running \<and> status (after ! i) = Running)"

definition dependencies_completed :: "AgentTask list \<Rightarrow> AgentTask \<Rightarrow> bool" where
  "dependencies_completed tasks t =
     (case dependencies t of
        None \<Rightarrow> True
      | Some deps \<Rightarrow> list_all (\<lambda>d. list_ex (\<lambda>c. task_id c = d \<and> status c = Completed) tasks) deps)"

text \<open>
  The readiness computation evaluated in a state, with the state it leaves behind: the loop
  body reads \<^verbatim>\<open>tasksRef.current\<close> and builds new arrays with \<^verbatim>\<open>filter\<close>,
  \<^verbatim>\<open>every\<close> and \<^verbatim>\<open>some\<close>; it assigns to nothing.
\<close>

definition readiness :: "sched_state \<Rightarrow> AgentTask list \<times> sched_state" where
  "readiness s = (executableTasks (tasksRef s), s)"

text \<open>
  Eligibility in the words of the specification: a task is eligible iff it is pending and
  every id in its dependencies names a completed task of the same graph.
\<close>

definition eligible :: "AgentTask list \<Rightarrow> AgentTask \<Rightarrow> bool" where
  "eligible graph t =
     (status t = Pending \<and>
      list_all (\<lambda>d. list_ex (\<lambda>c. task_id c = d \<and> status c = Completed) graph)
               (case dependencies t of None \<Rightarrow> [] | Some deps \<Rightarrow> deps))"

text \<open>
  The context in the words of the specification, with the graph's own order in place of the
  completion order: one block for every completed task of the graph, in the order of the
  graph, naming the task's role, title and goal and the text stored for its id in the result
  map (\<^verbatim>\<open>No info\<close> where there is none or it is empty), the blocks separated by a rule.
\<close>

fun blocks_of_completed :: "(string \<rightharpoonup> SearchResult) \<Rightarrow> AgentTask list \<Rightarrow> string list" where
  "blocks_of_completed results [] = []"
| "blocks_of_completed results (t # graph) =
     (if status t = Completed
      then [''[Context from Agent: '' @ agentRole t @ '' (Task: '' @ title t @ '')]:'' @ NL @
            ''Goal: '' @ goal t @ NL @
            ''Findings: '' @
              (case results (task_id t) of
                 None \<Rightarrow> ''No info''
               | Some r \<Rightarrow> if res_text r = [] then ''No info'' else res_text r)]
      else [])
     @ blocks_of_completed results graph"

definition context_in_graph_order :: "(string \<rightharpoonup> SearchResult) \<Rightarrow> AgentTask list \<Rightarrow> string" where
  "context_in_graph_order results graph =
     (case blocks_of_completed results graph of
        [] \<Rightarrow> []
      | b # bs \<Rightarrow> b @ concat (map (\<lambda>x. NL @ NL @ ''---'' @ NL @ NL @ x) bs))"

text \<open>
  A stuck state: some task is pending, none is running, no pending task is executable, no
  executor call is outstanding, and the run has not left the agent state \<^verbatim>\<open>SEARCHING\<close>.
\<close>

definition stuck :: "sched_state \<Rightarrow> bool" where
  "stuck s = ((\<exists>t \<in> set (tasksRef s). status t = Pending) \<and>
               (\<forall>t \<in> set (tasksRef s). status t \<noteq> Running) \<and>
               executableTasks (tasksRef s) = [] \<and> inflight s = [] \<and> agentState s = SEARCHING)"

section \<open>Example inputs\<close>

definition demo_task :: "string \<Rightarrow> task_status \<Rightarrow> task_priority \<Rightarrow> string list \<Rightarrow> AgentTask" where
  "demo_task i st p deps =
     \<lparr>task_id = i, title = ''Title '' @ i, agentRole = ''Role '' @ i, description = None,
      goal = ''Goal '' @ i, status = st, priority = Some p, dependencies = Some deps,
      result = None\<rparr>"

definition independent_three :: "AgentTask list" where
  "independent_three =
     [demo_task ''a'' Pending Normal [], demo_task ''b'' Pending Normal [],
      demo_task ''c'' Pending Normal []]"

definition same_id_three :: "AgentTask list" where
  "same_id_three =
     [demo_task ''a'' Pending Normal [], demo_task ''a'' Pending Normal [],
      demo_task ''a'' Pending Normal []]"

definition same_id_pair :: "AgentTask list" where
  "same_id_pair = [demo_task ''a'' Pending Normal [], demo_task ''a'' Pending Normal [''z'']]"

definition independent_four :: "AgentTask list" where
  "independent_four =
     [demo_task ''a'' Pending Normal [], demo_task ''b'' Pending Normal [],
      demo_task ''c'' Pending Normal [], demo_task ''d'' Pending Normal []]"

definition chain_pair :: "AgentTask list" where
  "chain_pair = [demo_task ''a'' Pending Normal [], demo_task ''b'' Pending Normal [''a'']]"

definition priority_pair :: "AgentTask list" where
  "priority_pair = [demo_task ''A'' Pending Normal [], demo_task ''B'' Pending High []]"

definition cycle_pair :: "AgentTask list" where
  "cycle_pair = [demo_task ''A'' Pending Normal [''B''], demo_task ''B'' Pending Normal [''A'']]"

definition finished_pair :: "AgentTask list" where
  "finished_pair = [demo_task ''A'' Completed Normal [], demo_task ''B'' Failed Normal [''A'']]"

definition answering_platform :: "string \<Rightarrow> Platform" where
  \<comment> \<open>the client answers with the text \<open>txt\<close> and no grounding metadata\<close>
  "answering_platform txt =
     \<lparr>generateContent = (\<lambda>_. Inr \<lparr>response_text = Some txt, candidates = None\<rparr>),
      URL_hostname = (\<lambda>_. None)\<rparr>"

definition failing_platform :: Platform where
  \<comment> \<open>the client call throws\<close>
  "failing_platform = \<lparr>generateContent = (\<lambda>_. Inl Thrown), URL_hostname = (\<lambda>_. None)\<rparr>"

section \<open>Properties of the task-list handlers\<close>

text \<open>
  Claim C8. A priority toggle on task id \<open>X\<close> keeps the length of the list; at every position
  it flips the priority of a task that has id \<open>X\<close> and status \<open>Pending\<close> and leaves every
  other task as it is; every field other than the priority is kept at every position
  (putting the old priority back gives the old task); and when every task with id \<open>X\<close> is
  running, completed or failed, the whole list is unchanged.
\<close>

theorem toggleTaskPriority_frame:
  "length (toggleTaskPriority X tasks) = length tasks \<and>
   (\<forall>i < length tasks.
      (task_id (tasks ! i) = X \<and> status (tasks ! i) = Pending \<longrightarrow>
         toggleTaskPriority X tasks ! i =
           (tasks ! i)\<lparr>priority := Some (if priority (tasks ! i) = Some High then Normal else High)\<rparr>) \<and>
      (\<not> (task_id (tasks ! i) = X \<and> status (tasks ! i) = Pending) \<longrightarrow>
         toggleTaskPriority X tasks ! i = tasks ! i) \<and>
      (toggleTaskPriority X tasks ! i)\<lparr>priority := priority (tasks ! i)\<rparr> = tasks ! i) \<and>
   ((\<forall>t \<in> set tasks. task_id t = X \<longrightarrow> status t \<in> {Running, Completed, Failed}) \<longrightarrow>
      toggleTaskPriority X tasks = tasks)"
proof -
  have "(\<forall>t \<in> set tasks. task_id t = X \<longrightarrow> status t \<in> {Running, Completed, Failed}) \<longrightarrow>
      toggleTaskPriority X tasks = tasks"
    unfolding toggleTaskPriority_def by (induction tasks) auto
  then show ?thesis
    by (simp add: toggleTaskPriority_def)
qed

theorem toggleTaskPriority_frame_witness:
  "toggleTaskPriority ''a'' [demo_task ''a'' Pending Normal [], demo_task ''b'' Running Normal []]
     = [demo_task ''a'' Pending High [], demo_task ''b'' Running Normal []] \<and>
   toggleTaskPriority ''b'' [demo_task ''a'' Pending Normal [], demo_task ''b'' Running Normal []]
     = [demo_task ''a'' Pending Normal [], demo_task ''b'' Running Normal []]"
  using toggleTaskPriority_frame [of "''a''" "[demo_task ''a'' Pending Normal [], demo_task ''b'' Running Normal []]"]
        toggleTaskPriority_frame [of "''b''" "[demo_task ''a'' Pending Normal [], demo_task ''b'' Running Normal []]"]
  by (simp add: toggleTaskPriority_def demo_task_def)

text \<open>
  Claim C9. After deleting task id \<open>X\<close>, no remaining task has id \<open>X\<close>, every remaining task
  has a dependency list, and none of these lists contains \<open>X\<close>; the remaining tasks are, in
  order, the tasks whose id is not \<open>X\<close>.
\<close>

theorem handleDeleteTask_no_dangling:
  "(\<forall>t \<in> set (handleDeleteTask X tasks).
      task_id t \<noteq> X \<and> (\<exists>ds. dependencies t = Some ds \<and> X \<notin> set ds)) \<and>
   map task_id (handleDeleteTask X tasks) = filter (\<lambda>i. i \<noteq> X) (map task_id tasks)"
  unfolding handleDeleteTask_def
  by (induction tasks) (auto split: option.splits)

theorem handleDeleteTask_no_dangling_witness:
  "handleDeleteTask ''a'' [demo_task ''a'' Pending Normal [], demo_task ''b'' Pending Normal [''a'', ''c'']]
     = [demo_task ''b'' Pending Normal [''c'']]"
  using handleDeleteTask_no_dangling [of "''a''" "[demo_task ''a'' Pending Normal [], demo_task ''b'' Pending Normal [''a'', ''c'']]"]
  by (simp add: handleDeleteTask_def demo_task_def)

section \<open>The concurrency bound\<close>

lemma updateStatus_list_ids [simp]: "map task_id (updateStatus_list i st ts) = map task_id ts"
  by (simp add: updateStatus_list_def)

lemma updateStatus_list_length [simp]: "length (updateStatus_list i st ts) = length ts"
  by (simp add: updateStatus_list_def)

lemma updateStatus_list_absent:
  "i \<notin> task_id ` set ts \<Longrightarrow> updateStatus_list i st ts = ts"
  unfolding updateStatus_list_def by (induction ts) auto

lemma toggleTaskPriority_ids [simp]: "map task_id (toggleTaskPriority x ts) = map task_id ts"
  by (simp add: toggleTaskPriority_def)

lemma toggleTaskPriority_statuses [simp]: "map status (toggleTaskPriority x ts) = map status ts"
  by (simp add: toggleTaskPriority_def)

lemma filter_status_map:
  "length (filter (\<lambda>t. status t = st) ts) = length (filter (\<lambda>x. x = st) (map status ts))"
  by (induction ts) auto

lemma running_after_launch:
  "distinct (map task_id ts) \<Longrightarrow>
   length (filter (\<lambda>t. status t = Running) (updateStatus_list i Running ts))
     \<le> Suc (length (filter (\<lambda>t. status t = Running) ts))"
proof (induction ts)
  case Nil
  then show ?case by (simp add: updateStatus_list_def)
next
  case (Cons a ts)
  show ?case
  proof (cases "task_id a = i")
    case True
    with Cons.prems have "i \<notin> task_id ` set ts" by auto
    then have "updateStatus_list i Running ts = ts" by (rule updateStatus_list_absent)
    then have "updateStatus_list i Running (a # ts) = a\<lparr>status := Running\<rparr> # ts"
      using True by (simp add: updateStatus_list_def)
    then show ?thesis by simp
  next
    case False
    then have "updateStatus_list i Running (a # ts) = a # updateStatus_list i Running ts"
      by (simp add: updateStatus_list_def)
    with Cons show ?thesis by simp
  qed
qed

lemma running_after_completion:
  "length (filter (\<lambda>t. status t = Running) (updateStatus_list i Completed ts))
     \<le> length (filter (\<lambda>t. status t = Running) ts)"
  unfolding updateStatus_list_def by (induction ts) auto

lemma processQueue_iter_ids:
  "map task_id (tasksRef (snd (processQueue_iter s))) = map task_id (tasksRef s)"
  by (simp add: processQueue_iter_def Let_def updateStatus_def split: option.splits)

lemma processQueue_iter_running:
  assumes "distinct (map task_id (tasksRef s))"
    and "length (filter (\<lambda>t. status t = Running) (tasksRef s)) \<le> MAX_CONCURRENCY"
  shows "length (filter (\<lambda>t. status t = Running) (tasksRef (snd (processQueue_iter s)))) \<le> MAX_CONCURRENCY"
proof -
  have "length (filter (\<lambda>t. status t = Running) (updateStatus_list i Running (tasksRef s))) \<le> MAX_CONCURRENCY"
    if "length (filter (\<lambda>t. status t = Running) (tasksRef s)) < MAX_CONCURRENCY" for i
    using running_after_launch [OF assms(1), of i] that by simp
  then show ?thesis
    using assms(2)
    by (simp add: processQueue_iter_def Let_def updateStatus_def split: option.splits)
qed


lemma tasksRef_spawn_processQueue:
  "tasksRef (spawn_processQueue s) = tasksRef (snd (processQueue_iter s))"
  by (cases "processQueue_iter s") (simp add: spawn_processQueue_def split: loop_exit.splits)

lemma tasksRef_step_Tick_main:
  "tasksRef (step Tick_main s) = (if main_done s then tasksRef s else tasksRef (snd (processQueue_iter s)))"
  by (cases "processQueue_iter s") (simp split: loop_exit.splits)

lemma tasksRef_step_Tick_spawned:
  "tasksRef (step Tick_spawned s) = (if spawned s = 0 then tasksRef s else tasksRef (snd (processQueue_iter s)))"
  by (cases "processQueue_iter s") (simp split: loop_exit.splits)

lemma tasksRef_then_callback:
  "tasksRef (then_callback t r s) =
     tasksRef (snd (processQueue_iter
       (updateStatus (task_id t) Completed (s\<lparr>taskResultsMap := (taskResultsMap s)(task_id t \<mapsto> r)\<rparr>))))"
  by (simp add: then_callback_def Let_def tasksRef_spawn_processQueue)

lemma executeResearchTask_Inr:
  "\<exists>r. executeResearchTask pf task ctx = Inr r"
  by (simp add: executeResearchTask_def split: sum.splits)

lemma tasksRef_step_Resolve:
  "tasksRef (step (Resolve k pf) s) =
     (if k < length (inflight s) then
        tasksRef (snd (processQueue_iter
          (updateStatus (task_id (fst (inflight s ! k))) Completed
             (s\<lparr>inflight := take k (inflight s) @ drop (Suc k) (inflight s),
                taskResultsMap := (taskResultsMap s)(task_id (fst (inflight s ! k)) \<mapsto>
                   projr (executeResearchTask pf (fst (inflight s ! k)) (snd (inflight s ! k))))\<rparr>))))
      else tasksRef s)"
proof (cases "k < length (inflight s)")
  case False
  then show ?thesis by simp
next
  case True
  obtain t c where tc: "inflight s ! k = (t, c)" by (cases "inflight s ! k")
  obtain r where r: "executeResearchTask pf t c = Inr r"
    using executeResearchTask_Inr by blast
  show ?thesis using True tc r
    by (simp add: tasksRef_then_callback)
qed

lemma step_ids: "map task_id (tasksRef (step e s)) = map task_id (tasksRef s)"
proof (cases e)
  case Tick_main
  then show ?thesis
    by (simp add: tasksRef_step_Tick_main processQueue_iter_ids del: step.simps)
next
  case Tick_spawned
  then show ?thesis
    by (simp add: tasksRef_step_Tick_spawned processQueue_iter_ids del: step.simps)
next
  case (Resolve k pf)
  then show ?thesis
    by (simp add: tasksRef_step_Resolve processQueue_iter_ids updateStatus_def del: step.simps)
next
  case (Toggle x)
  then show ?thesis by simp
next
  case Poll
  then show ?thesis by simp
qed

lemma step_running:
  assumes "distinct (map task_id (tasksRef s))"
    and "length (filter (\<lambda>t. status t = Running) (tasksRef s)) \<le> MAX_CONCURRENCY"
  shows "length (filter (\<lambda>t. status t = Running) (tasksRef (step e s))) \<le> MAX_CONCURRENCY"
proof (cases e)
  case Tick_main
  then show ?thesis using processQueue_iter_running [OF assms] assms(2)
    by (simp add: tasksRef_step_Tick_main del: step.simps)
next
  case Tick_spawned
  then show ?thesis using processQueue_iter_running [OF assms] assms(2)
    by (simp add: tasksRef_step_Tick_spawned del: step.simps)
next
  case (Resolve k pf)
  show ?thesis
  proof (cases "k < length (inflight s)")
    case False
    then show ?thesis using Resolve assms(2) by simp
  next
    case True
    define s2 where "s2 = updateStatus (task_id (fst (inflight s ! k))) Completed
             (s\<lparr>inflight := take k (inflight s) @ drop (Suc k) (inflight s),
                taskResultsMap := (taskResultsMap s)(task_id (fst (inflight s ! k)) \<mapsto>
                   projr (executeResearchTask pf (fst (inflight s ! k)) (snd (inflight s ! k))))\<rparr>)"
    have ts2: "tasksRef s2 = updateStatus_list (task_id (fst (inflight s ! k))) Completed (tasksRef s)"
      by (simp add: s2_def updateStatus_def)
    have d: "distinct (map task_id (tasksRef s2))" using assms(1) by (simp add: ts2)
    have r: "length (filter (\<lambda>t. status t = Running) (tasksRef s2)) \<le> MAX_CONCURRENCY"
      using running_after_completion [of "task_id (fst (inflight s ! k))" "tasksRef s"] assms(2)
      by (simp add: ts2)
    have "tasksRef (step e s) = tasksRef (snd (processQueue_iter s2))"
      using True Resolve by (simp add: tasksRef_step_Resolve s2_def del: step.simps)
    then show ?thesis using processQueue_iter_running [OF d r] by simp
  qed
next
  case (Toggle x)
  have "length (filter (\<lambda>t. status t = Running) (toggleTaskPriority x (tasksRef s)))
        = length (filter (\<lambda>t. status t = Running) (tasksRef s))"
    by (simp add: filter_status_map)
  then show ?thesis using Toggle assms(2) by simp
next
  case Poll
  then show ?thesis using assms(2) by simp
qed

lemma run_ids: "map task_id (tasksRef (run es s)) = map task_id (tasksRef s)"
  by (induction es arbitrary: s) (simp_all add: step_ids)

lemma run_running:
  "distinct (map task_id (tasksRef s)) \<Longrightarrow>
   length (filter (\<lambda>t. status t = Running) (tasksRef s)) \<le> MAX_CONCURRENCY \<Longrightarrow>
   length (filter (\<lambda>t. status t = Running) (tasksRef (run es s))) \<le> MAX_CONCURRENCY"
proof (induction es arbitrary: s)
  case Nil
  then show ?case by simp
next
  case (Cons e es)
  have "distinct (map task_id (tasksRef (step e s)))" using Cons.prems(1) by (simp add: step_ids)
  moreover have "length (filter (\<lambda>t. status t = Running) (tasksRef (step e s))) \<le> MAX_CONCURRENCY"
    using Cons.prems by (rule step_running)
  ultimately show ?case using Cons.IH by simp
qed

lemma tasksRef_handleStartExecution:
  "tasksRef (handleStartExecution tasks) = tasksRef (snd (processQueue_iter (initial_state tasks)))"
  unfolding handleStartExecution_def
  by (cases "processQueue_iter (initial_state tasks)") (simp split: loop_exit.splits)

text \<open>
  Claim C1. In every state a run reaches, at most \<open>MAX_CONCURRENCY = 2\<close> tasks are running.
  The task graph is a list of tasks with pairwise distinct ids (the data model's unique
  identifier), handed over with at most two tasks running, in particular with every task
  pending and with no dependencies at all. The states are those reached from
  \<open>handleStartExecution\<close> by any sequence of events: loop passes, executor calls settling
  under any behaviour of the platform, priority toggles and polls of the wait loop.
\<close>

theorem running_bounded:
  assumes "distinct (map task_id tasks)"
    and "length (filter (\<lambda>t. status t = Running) tasks) \<le> MAX_CONCURRENCY"
  shows "length (filter (\<lambda>t. status t = Running) (tasksRef (run es (handleStartExecution tasks)))) \<le> 2"
proof -
  have d: "distinct (map task_id (tasksRef (handleStartExecution tasks)))"
    using assms(1) by (simp add: tasksRef_handleStartExecution processQueue_iter_ids initial_state_def)
  have "length (filter (\<lambda>t. status t = Running) (tasksRef (handleStartExecution tasks))) \<le> MAX_CONCURRENCY"
    using processQueue_iter_running [of "initial_state tasks"] assms
    by (simp add: tasksRef_handleStartExecution initial_state_def)
  from run_running [OF d this] show ?thesis by (simp add: MAX_CONCURRENCY_def)
qed

theorem running_bounded_witness:
  "distinct (map task_id independent_three) \<and>
   length (filter (\<lambda>t. status t = Running) independent_three) \<le> MAX_CONCURRENCY \<and>
   map status (tasksRef (run [Tick_main, Tick_main] (handleStartExecution independent_three)))
     = [Running, Running, Pending] \<and>
   length (filter (\<lambda>t. status t = Running)
             (tasksRef (run [Tick_main, Tick_main] (handleStartExecution independent_three)))) \<le> 2"
proof -
  have d: "distinct (map task_id independent_three)" by code_simp
  have r: "length (filter (\<lambda>t. status t = Running) independent_three) \<le> MAX_CONCURRENCY"
    by code_simp
  have e: "map status (tasksRef (run [Tick_main, Tick_main] (handleStartExecution independent_three)))
     = [Running, Running, Pending]" by code_simp
  from d r e running_bounded [OF d r, of "[Tick_main, Tick_main]"] show ?thesis by blast
qed

text \<open>
  The ids have to be distinct, since \<open>updateStatus\<close> addresses tasks by id: three pending
  tasks that share one id are all set running by the first loop pass.
\<close>

lemma running_bound_needs_unique_ids:
  "map status (tasksRef (handleStartExecution same_id_three)) = [Running, Running, Running]"
  by code_simp

section \<open>Dependency order\<close>

lemma nextTask_of_mem: "nextTask_of ex = Some t \<Longrightarrow> t \<in> set ex"
  by (auto simp: nextTask_of_def find_Some_iff split: option.splits list.splits)

lemma executableTasks_mem:
  "t \<in> set (executableTasks ts) \<Longrightarrow>
     t \<in> set ts \<and> status t = Pending \<and>
     (case dependencies t of
        None \<Rightarrow> True
      | Some deps \<Rightarrow> \<forall>d \<in> set deps. \<exists>c \<in> set ts. task_id c = d \<and> status c = Completed)"
  by (auto simp: executableTasks_def Let_def list_all_iff list_ex_iff split: option.splits)

lemma same_id_same_task:
  "distinct (map task_id ts) \<Longrightarrow> x \<in> set ts \<Longrightarrow> y \<in> set ts \<Longrightarrow> task_id x = task_id y \<Longrightarrow> x = y"
  by (meson distinct_map inj_onD)

lemma updateStatus_list_nth:
  "i < length ts \<Longrightarrow>
   updateStatus_list j st ts ! i = (if task_id (ts ! i) = j then (ts ! i)\<lparr>status := st\<rparr> else ts ! i)"
  by (simp add: updateStatus_list_def)

lemma completed_survives_launch:
  assumes "distinct (map task_id ts)" "nt \<in> set ts" "status nt = Pending"
    "c \<in> set ts" "status c = Completed"
  shows "c \<in> set (updateStatus_list (task_id nt) Running ts)"
proof -
  have "task_id c \<noteq> task_id nt"
    using same_id_same_task [OF assms(1) assms(4) assms(2)] assms(3,5) by auto
  then show ?thesis using assms(4) by (force simp: updateStatus_list_def)
qed

lemma launch_deps:
  assumes d: "distinct (map task_id ts)"
    and nt: "nt \<in> set (executableTasks ts)"
    and nr: "newly_running ts (updateStatus_list (task_id nt) Running ts) i"
  shows "dependencies_completed (updateStatus_list (task_id nt) Running ts) (ts ! i)"
proof -
  from executableTasks_mem [OF nt] have ntin: "nt \<in> set ts" and ntp: "status nt = Pending"
    and ntd: "case dependencies nt of None \<Rightarrow> True
      | Some deps \<Rightarrow> \<forall>d \<in> set deps. \<exists>c \<in> set ts. task_id c = d \<and> status c = Completed"
    by auto
  from nr have i: "i < length ts" by (simp add: newly_running_def)
  have "task_id (ts ! i) = task_id nt"
    using nr i by (auto simp: newly_running_def updateStatus_list_nth split: if_splits)
  then have eq: "ts ! i = nt"
    using same_id_same_task [OF d _ ntin] i by simp
  show ?thesis
  proof (cases "dependencies nt")
    case None
    then show ?thesis by (simp add: dependencies_completed_def eq)
  next
    case (Some deps)
    have "\<exists>c \<in> set (updateStatus_list (task_id nt) Running ts). task_id c = x \<and> status c = Completed"
      if "x \<in> set deps" for x
    proof -
      from ntd Some that obtain c where c: "c \<in> set ts" "task_id c = x" "status c = Completed"
        by auto
      from completed_survives_launch [OF d ntin ntp c(1) c(3)] c show ?thesis by blast
    qed
    then show ?thesis
      by (simp add: dependencies_completed_def eq Some list_all_iff list_ex_iff)
  qed
qed

lemma tasksRef_processQueue_iter:
  "tasksRef (snd (processQueue_iter s)) = tasksRef s \<or>
   (\<exists>nt \<in> set (executableTasks (tasksRef s)).
      tasksRef (snd (processQueue_iter s)) = updateStatus_list (task_id nt) Running (tasksRef s))"
proof (cases "nextTask_of (executableTasks (tasksRef s))")
  case None
  then show ?thesis by (simp add: processQueue_iter_def Let_def)
next
  case (Some nt)
  then have "nt \<in> set (executableTasks (tasksRef s))" by (rule nextTask_of_mem)
  then show ?thesis using Some
    by (auto simp: processQueue_iter_def Let_def updateStatus_def)
qed

lemma iter_launch_deps:
  assumes "distinct (map task_id (tasksRef s))"
    and "newly_running (tasksRef s) (tasksRef (snd (processQueue_iter s))) i"
  shows "dependencies_completed (tasksRef (snd (processQueue_iter s))) (tasksRef s ! i)"
  using tasksRef_processQueue_iter [of s]
proof
  assume "tasksRef (snd (processQueue_iter s)) = tasksRef s"
  with assms(2) show ?thesis by (simp add: newly_running_def)
next
  assume "\<exists>nt \<in> set (executableTasks (tasksRef s)).
      tasksRef (snd (processQueue_iter s)) = updateStatus_list (task_id nt) Running (tasksRef s)"
  then obtain nt where nt: "nt \<in> set (executableTasks (tasksRef s))"
    and eq: "tasksRef (snd (processQueue_iter s)) = updateStatus_list (task_id nt) Running (tasksRef s)"
    by blast
  show ?thesis using launch_deps [OF assms(1) nt] assms(2) by (simp add: eq)
qed

lemma dependencies_completed_cong:
  "dependencies t = dependencies u \<Longrightarrow> dependencies_completed ts t = dependencies_completed ts u"
  by (simp add: dependencies_completed_def)

lemma step_launch_deps:
  assumes d: "distinct (map task_id (tasksRef s))"
    and nr: "newly_running (tasksRef s) (tasksRef (step e s)) i"
  shows "dependencies_completed (tasksRef (step e s)) (tasksRef s ! i)"
proof (cases e)
  case Tick_main
  show ?thesis
  proof (cases "main_done s")
    case True
    with nr Tick_main show ?thesis by (simp add: newly_running_def)
  next
    case False
    then have "tasksRef (step e s) = tasksRef (snd (processQueue_iter s))"
      using Tick_main by (simp add: tasksRef_step_Tick_main del: step.simps)
    with iter_launch_deps [OF d, of i] nr show ?thesis by simp
  qed
next
  case Tick_spawned
  show ?thesis
  proof (cases "spawned s = 0")
    case True
    with nr Tick_spawned show ?thesis by (simp add: newly_running_def)
  next
    case False
    then have "tasksRef (step e s) = tasksRef (snd (processQueue_iter s))"
      using Tick_spawned by (simp add: tasksRef_step_Tick_spawned del: step.simps)
    with iter_launch_deps [OF d, of i] nr show ?thesis by simp
  qed
next
  case (Resolve k pf)
  show ?thesis
  proof (cases "k < length (inflight s)")
    case False
    with nr Resolve show ?thesis by (simp add: newly_running_def)
  next
    case True
    define s2 where "s2 = updateStatus (task_id (fst (inflight s ! k))) Completed
             (s\<lparr>inflight := take k (inflight s) @ drop (Suc k) (inflight s),
                taskResultsMap := (taskResultsMap s)(task_id (fst (inflight s ! k)) \<mapsto>
                   projr (executeResearchTask pf (fst (inflight s ! k)) (snd (inflight s ! k))))\<rparr>)"
    have ts2: "tasksRef s2 = updateStatus_list (task_id (fst (inflight s ! k))) Completed (tasksRef s)"
      by (simp add: s2_def updateStatus_def)
    have d2: "distinct (map task_id (tasksRef s2))" using d by (simp add: ts2)
    have st: "tasksRef (step e s) = tasksRef (snd (processQueue_iter s2))"
      using True Resolve by (simp add: tasksRef_step_Resolve s2_def del: step.simps)
    from nr have i: "i < length (tasksRef s)" by (simp add: newly_running_def)
    have "newly_running (tasksRef s2) (tasksRef (snd (processQueue_iter s2))) i"
      using nr i unfolding newly_running_def st ts2
      by (auto simp: updateStatus_list_nth)
    from iter_launch_deps [OF d2 this]
    have "dependencies_completed (tasksRef (step e s)) (tasksRef s2 ! i)" by (simp add: st)
    moreover have "dependencies (tasksRef s2 ! i) = dependencies (tasksRef s ! i)"
      using i by (simp add: ts2 updateStatus_list_nth)
    ultimately show ?thesis using dependencies_completed_cong by blast
  qed
next
  case (Toggle x)
  have "map status (tasksRef (step e s)) = map status (tasksRef s)"
    using Toggle by simp
  then have "status (tasksRef (step e s) ! i) = status (tasksRef s ! i)"
    if "i < length (tasksRef s)"
    using that by (metis length_map nth_map)
  with nr show ?thesis by (simp add: newly_running_def)
next
  case Poll
  have "tasksRef (step e s) = tasksRef s" using Poll by simp
  with nr show ?thesis by (simp add: newly_running_def)
qed

text \<open>
  Claim C2. Whenever a task goes from not running to running, every id in its dependency
  list is, at that moment, the id of a completed task: this holds for the first loop pass
  inside \<open>handleStartExecution\<close> and for every event in every state a run reaches. The task
  graph is a list of tasks with pairwise distinct ids. A task with no dependencies satisfies
  the condition trivially, so the statement covers every task.
\<close>

theorem launch_requires_completed_dependencies:
  assumes "distinct (map task_id tasks)"
  shows "(newly_running tasks (tasksRef (handleStartExecution tasks)) i \<longrightarrow>
            dependencies_completed (tasksRef (handleStartExecution tasks)) (tasks ! i)) \<and>
         (newly_running (tasksRef (run es (handleStartExecution tasks)))
                        (tasksRef (step e (run es (handleStartExecution tasks)))) i \<longrightarrow>
            dependencies_completed (tasksRef (step e (run es (handleStartExecution tasks))))
                                   (tasksRef (run es (handleStartExecution tasks)) ! i))"
proof
  show "newly_running tasks (tasksRef (handleStartExecution tasks)) i \<longrightarrow>
            dependencies_completed (tasksRef (handleStartExecution tasks)) (tasks ! i)"
    using iter_launch_deps [of "initial_state tasks" i] assms
    by (simp add: tasksRef_handleStartExecution initial_state_def)
next
  have "distinct (map task_id (tasksRef (run es (handleStartExecution tasks))))"
    using assms
    by (simp add: run_ids tasksRef_handleStartExecution processQueue_iter_ids initial_state_def)
  then show "newly_running (tasksRef (run es (handleStartExecution tasks)))
                        (tasksRef (step e (run es (handleStartExecution tasks)))) i \<longrightarrow>
            dependencies_completed (tasksRef (step e (run es (handleStartExecution tasks))))
                                   (tasksRef (run es (handleStartExecution tasks)) ! i)"
    using step_launch_deps by blast
qed

theorem launch_requires_completed_dependencies_witness:
  "distinct (map task_id chain_pair) \<and>
   map status (tasksRef (handleStartExecution chain_pair)) = [Running, Pending] \<and>
   newly_running (tasksRef (run [] (handleStartExecution chain_pair)))
                 (tasksRef (step (Resolve 0 failing_platform) (run [] (handleStartExecution chain_pair)))) 1 \<and>
   dependencies_completed
     (tasksRef (step (Resolve 0 failing_platform) (run [] (handleStartExecution chain_pair))))
     (tasksRef (run [] (handleStartExecution chain_pair)) ! 1)"
proof -
  have d: "distinct (map task_id chain_pair)" by code_simp
  have s: "map status (tasksRef (handleStartExecution chain_pair)) = [Running, Pending]"
    by code_simp
  have n: "newly_running (tasksRef (run [] (handleStartExecution chain_pair)))
                 (tasksRef (step (Resolve 0 failing_platform) (run [] (handleStartExecution chain_pair)))) 1"
    by code_simp
  from d s n launch_requires_completed_dependencies [OF d, of 1 "[]" "Resolve 0 failing_platform"]
  show ?thesis by blast
qed

text \<open>
  Here too the ids have to be distinct: of two pending tasks that share an id, the second
  depending on a task that does not exist, the first is eligible, and launching it sets both
  running.
\<close>

lemma dependency_order_needs_unique_ids:
  "map status (tasksRef (handleStartExecution same_id_pair)) = [Running, Running] \<and>
   \<not> dependencies_completed (tasksRef (handleStartExecution same_id_pair)) (same_id_pair ! 1)"
  by code_simp

section \<open>Readiness and selection\<close>

lemma executableTasks_eligible: "executableTasks ts = filter (eligible ts) ts"
proof -
  have "list_ex (\<lambda>c. task_id c = d) (filter (\<lambda>t. status t = Completed) ts)
        = list_ex (\<lambda>c. task_id c = d \<and> status c = Completed) ts" for d
    by (auto simp: list_ex_iff)
  then show ?thesis
    unfolding executableTasks_def Let_def eligible_def
    by (auto intro!: filter_cong split: option.splits)
qed

text \<open>
  Claim C7. The readiness computation is pure and idempotent: evaluated in a state it leaves
  the state as it is, so no task is changed; evaluated again it returns the same list; and
  the list consists of the tasks of the graph that are eligible in the specification's sense,
  in the order of the graph.
\<close>

theorem readiness_pure:
  assumes "readiness s = (r, s')"
  shows "s' = s \<and> readiness s' = (r, s') \<and> r = filter (eligible (tasksRef s)) (tasksRef s)"
  using assms by (auto simp: readiness_def executableTasks_eligible)

theorem readiness_pure_witness:
  "readiness (initial_state chain_pair)
     = ([demo_task ''a'' Pending Normal []], initial_state chain_pair) \<and>
   filter (eligible (tasksRef (initial_state chain_pair))) (tasksRef (initial_state chain_pair))
     = [demo_task ''a'' Pending Normal []]"
proof -
  have e: "executableTasks (tasksRef (initial_state chain_pair)) = [demo_task ''a'' Pending Normal []]"
    by code_simp
  have r: "readiness (initial_state chain_pair)
             = ([demo_task ''a'' Pending Normal []], initial_state chain_pair)"
    by (simp add: readiness_def e)
  from r readiness_pure [OF r] show ?thesis by simp
qed

lemma nextTask_of_cases:
  assumes "ex \<noteq> []"
  shows "\<exists>t. nextTask_of ex = Some t \<and> t \<in> set ex \<and>
     ((\<exists>h \<in> set ex. priority h = Some High) \<longrightarrow>
        priority t = Some High \<and> t = hd (filter (\<lambda>h. priority h = Some High) ex)) \<and>
     ((\<forall>h \<in> set ex. priority h \<noteq> Some High) \<longrightarrow> t = hd ex)"
proof (cases "find (\<lambda>t. priority t = Some High) ex")
  case None
  then have "\<forall>h \<in> set ex. priority h \<noteq> Some High" by (simp add: find_None_iff)
  moreover have "nextTask_of ex = Some (hd ex)"
    using None assms by (cases ex) (simp_all add: nextTask_of_def)
  ultimately show ?thesis using assms by auto
next
  case (Some t)
  then have "t \<in> set ex" "priority t = Some High"
    by (auto simp: find_Some_iff)
  moreover have "t = hd (filter (\<lambda>h. priority h = Some High) ex)"
    using Some by (induction ex) (auto split: if_splits)
  moreover have "nextTask_of ex = Some t" using Some by (simp add: nextTask_of_def)
  ultimately show ?thesis by auto
qed

text \<open>
  Claim C5. At a loop pass with fewer than \<open>MAX_CONCURRENCY\<close> tasks running and a non-empty
  eligible list, exactly one task \<open>nextTask\<close> is launched: it is set running and dispatched.
  \<open>nextTask\<close> is eligible. If some eligible task has priority high, \<open>nextTask\<close> has priority
  high (it is the first such task in the order of the graph); otherwise \<open>nextTask\<close> is the
  first eligible task in the order of the graph. In particular, with \<open>A\<close> (no dependencies)
  and \<open>B\<close> (no dependencies, priority high) both eligible, \<open>B\<close> is launched before \<open>A\<close>.
\<close>

theorem launch_prefers_high_priority:
  assumes "length (filter (\<lambda>t. status t = Running) (tasksRef s)) < MAX_CONCURRENCY"
    and "executableTasks (tasksRef s) \<noteq> []"
  shows "\<exists>nextTask contextString.
     processQueue_iter s =
       (Delay, s\<lparr>tasksRef := updateStatus_list (task_id nextTask) Running (tasksRef s),
                 inflight := inflight s @ [(nextTask, contextString)]\<rparr>) \<and>
     nextTask \<in> set (executableTasks (tasksRef s)) \<and>
     ((\<exists>h \<in> set (executableTasks (tasksRef s)). priority h = Some High) \<longrightarrow>
        priority nextTask = Some High \<and>
        nextTask = hd (filter (\<lambda>h. priority h = Some High) (executableTasks (tasksRef s)))) \<and>
     ((\<forall>h \<in> set (executableTasks (tasksRef s)). priority h \<noteq> Some High) \<longrightarrow>
        nextTask = hd (executableTasks (tasksRef s)))"
proof -
  from nextTask_of_cases [OF assms(2)] obtain t where
    t: "nextTask_of (executableTasks (tasksRef s)) = Some t" "t \<in> set (executableTasks (tasksRef s))"
    "(\<exists>h \<in> set (executableTasks (tasksRef s)). priority h = Some High) \<longrightarrow>
        priority t = Some High \<and> t = hd (filter (\<lambda>h. priority h = Some High) (executableTasks (tasksRef s)))"
    "(\<forall>h \<in> set (executableTasks (tasksRef s)). priority h \<noteq> Some High) \<longrightarrow> t = hd (executableTasks (tasksRef s))"
    by blast
  have "filter (\<lambda>t. status t = Pending) (tasksRef s) \<noteq> []"
    using assms(2) by (auto simp: executableTasks_def Let_def filter_empty_conv)
  then have "processQueue_iter s =
       (Delay, s\<lparr>tasksRef := updateStatus_list (task_id t) Running (tasksRef s),
                 inflight := inflight s @ [(t, contextString_of (taskResultsMap s)
                    (filter (\<lambda>t. status t = Completed) (tasksRef s)))]\<rparr>)"
    using assms t(1) by (simp add: processQueue_iter_def Let_def updateStatus_def)
  with t show ?thesis by blast
qed

theorem launch_prefers_high_priority_witness:
  "length (filter (\<lambda>t. status t = Running) (tasksRef (initial_state priority_pair))) < MAX_CONCURRENCY \<and>
   executableTasks (tasksRef (initial_state priority_pair)) = priority_pair \<and>
   (\<exists>h \<in> set (executableTasks (tasksRef (initial_state priority_pair))). priority h = Some High) \<and>
   map fst (inflight (handleStartExecution priority_pair)) = [demo_task ''B'' Pending High []] \<and>
   map status (tasksRef (handleStartExecution priority_pair)) = [Pending, Running]"
proof -
  have r: "length (filter (\<lambda>t. status t = Running) (tasksRef (initial_state priority_pair))) < MAX_CONCURRENCY"
    by code_simp
  have e: "executableTasks (tasksRef (initial_state priority_pair)) = priority_pair"
    by code_simp
  have n: "executableTasks (tasksRef (initial_state priority_pair)) \<noteq> []"
    by code_simp
  have h: "\<exists>h \<in> set (executableTasks (tasksRef (initial_state priority_pair))). priority h = Some High"
    by code_simp
  have f: "hd (filter (\<lambda>h. priority h = Some High) (executableTasks (tasksRef (initial_state priority_pair))))
             = demo_task ''B'' Pending High []"
    by code_simp
  have u: "updateStatus_list (task_id (demo_task ''B'' Pending High [])) Running
             (tasksRef (initial_state priority_pair))
           = [demo_task ''A'' Pending Normal [], demo_task ''B'' Running High []]"
    by code_simp
  from launch_prefers_high_priority [OF r n] h f obtain contextString where
    "processQueue_iter (initial_state priority_pair) =
       (Delay, (initial_state priority_pair)
          \<lparr>tasksRef := updateStatus_list (task_id (demo_task ''B'' Pending High [])) Running
                         (tasksRef (initial_state priority_pair)),
           inflight := inflight (initial_state priority_pair)
                         @ [(demo_task ''B'' Pending High [], contextString)]\<rparr>)"
    by auto
  then have "map fst (inflight (handleStartExecution priority_pair)) = [demo_task ''B'' Pending High []] \<and>
             map status (tasksRef (handleStartExecution priority_pair)) = [Pending, Running]"
    by (simp add: handleStartExecution_def u) (simp add: initial_state_def demo_task_def)
  with r e h show ?thesis by blast
qed

section \<open>Leaving the loop: deadlock and finished graphs\<close>

lemma processQueue_iter_deadlock:
  assumes "\<exists>t \<in> set (tasksRef s). status t = Pending"
    and "\<forall>t \<in> set (tasksRef s). status t \<noteq> Running"
    and "executableTasks (tasksRef s) = []"
  shows "processQueue_iter s = (Break, s)"
proof -
  have "filter (\<lambda>t. status t = Pending) (tasksRef s) \<noteq> []"
    using assms(1) by (auto simp: filter_empty_conv)
  moreover have "filter (\<lambda>t. status t = Running) (tasksRef s) = []"
    using assms(2) by (auto simp: filter_empty_conv)
  ultimately show ?thesis using assms(3)
    by (simp add: processQueue_iter_def Let_def)
qed

text \<open>
  Claim C3, as amended. In a state where at least one task is pending, no task is running and
  no pending task is executable, the loop pass takes the deadlock branch: the loop is left,
  nothing is dispatched and no task is changed, so every such task keeps the status pending.
\<close>

theorem deadlock_leaves_loop:
  assumes "\<exists>t \<in> set (tasksRef s). status t = Pending"
    and "\<forall>t \<in> set (tasksRef s). status t \<noteq> Running"
    and "executableTasks (tasksRef s) = []"
  shows "processQueue_iter s = (Break, s)"
  using assms by (rule processQueue_iter_deadlock)

theorem deadlock_leaves_loop_witness:
  "map status (tasksRef (initial_state cycle_pair)) = [Pending, Pending] \<and>
   executableTasks (tasksRef (initial_state cycle_pair)) = [] \<and>
   processQueue_iter (initial_state cycle_pair) = (Break, initial_state cycle_pair)"
proof -
  have p: "\<exists>t \<in> set (tasksRef (initial_state cycle_pair)). status t = Pending" by code_simp
  have r: "\<forall>t \<in> set (tasksRef (initial_state cycle_pair)). status t \<noteq> Running" by code_simp
  have e: "executableTasks (tasksRef (initial_state cycle_pair)) = []" by code_simp
  have m: "map status (tasksRef (initial_state cycle_pair)) = [Pending, Pending]" by code_simp
  from m e deadlock_leaves_loop [OF p r e] show ?thesis by blast
qed

text \<open>
  Claim C3 as stated fails on the two-task cycle (\<open>A\<close> depends on \<open>B\<close>, \<open>B\<close> on \<open>A\<close>): the
  loop is left at once, both tasks still have the status pending, not failed, and after two
  polls the wait loop of \<open>handleStartExecution\<close> still finds its condition true and the run
  is still in the agent state \<^verbatim>\<open>SEARCHING\<close>.
\<close>

theorem deadlock_counterexample:
  "map status (tasksRef (handleStartExecution cycle_pair)) = [Pending, Pending] \<and>
   main_done (handleStartExecution cycle_pair) \<and>
   map status (tasksRef (run [Poll, Poll] (handleStartExecution cycle_pair))) = [Pending, Pending] \<and>
   agentState (run [Poll, Poll] (handleStartExecution cycle_pair)) = SEARCHING \<and>
   wait_condition (tasksRef (run [Poll, Poll] (handleStartExecution cycle_pair)))"
  by code_simp

text \<open>
  No event changes that: from a deadlocked graph the run stays in the agent state
  \<^verbatim>\<open>SEARCHING\<close> for ever, with the statuses it started with.
\<close>

lemma eligible_map:
  assumes "\<forall>t. status (f t) = status t \<and> task_id (f t) = task_id t \<and> dependencies (f t) = dependencies t"
  shows "eligible (map f ts) (f t) = eligible ts t"
  using assms by (simp add: eligible_def list_ex_iff)

lemma executableTasks_map:
  assumes "\<forall>t. status (f t) = status t \<and> task_id (f t) = task_id t \<and> dependencies (f t) = dependencies t"
  shows "executableTasks (map f ts) = map f (executableTasks ts)"
  by (simp add: executableTasks_eligible filter_map o_def eligible_map [OF assms])

lemma executableTasks_toggle:
  "executableTasks (toggleTaskPriority x ts) = toggleTaskPriority x (executableTasks ts)"
  unfolding toggleTaskPriority_def by (rule executableTasks_map) simp

lemma stuck_step:
  assumes "stuck s"
  shows "stuck (step e s) \<and> map status (tasksRef (step e s)) = map status (tasksRef s)"
proof (cases e)
  case Tick_main
  have "processQueue_iter s = (Break, s)"
    using assms by (intro processQueue_iter_deadlock) (simp_all add: stuck_def)
  then show ?thesis using assms Tick_main by (simp add: stuck_def)
next
  case Tick_spawned
  have "processQueue_iter s = (Break, s)"
    using assms by (intro processQueue_iter_deadlock) (simp_all add: stuck_def)
  then show ?thesis using assms Tick_spawned by (simp add: stuck_def)
next
  case (Resolve k pf)
  then show ?thesis using assms by (simp add: stuck_def)
next
  case (Toggle x)
  have "set (map status (toggleTaskPriority x (tasksRef s))) = set (map status (tasksRef s))"
    by simp
  then have "status ` set (toggleTaskPriority x (tasksRef s)) = status ` set (tasksRef s)"
    by (simp only: set_map)
  then have "(\<exists>t \<in> set (toggleTaskPriority x (tasksRef s)). status t = Pending) \<and>
             (\<forall>t \<in> set (toggleTaskPriority x (tasksRef s)). status t \<noteq> Running)"
    using assms unfolding stuck_def by (metis (no_types, lifting) image_iff)
  then show ?thesis using assms Toggle
    by (simp add: stuck_def executableTasks_toggle toggleTaskPriority_def [of x "[]"])
next
  case Poll
  have "wait_condition (tasksRef s)"
    using assms unfolding stuck_def wait_condition_def list_ex_iff
    by (metis task_status.distinct(3,5))
  then show ?thesis using assms Poll by simp
qed

lemma stuck_run:
  "stuck s \<Longrightarrow> stuck (run es s) \<and> map status (tasksRef (run es s)) = map status (tasksRef s)"
proof (induction es arbitrary: s)
  case Nil
  then show ?case by simp
next
  case (Cons e es)
  from stuck_step [OF Cons.prems, of e] Cons.IH [of "step e s"] show ?case by simp
qed

lemma deadlocked_run_never_synthesizes:
  assumes "\<exists>t \<in> set tasks. status t = Pending"
    and "\<forall>t \<in> set tasks. status t \<noteq> Running"
    and "executableTasks tasks = []"
  shows "agentState (run es (handleStartExecution tasks)) = SEARCHING \<and>
         map status (tasksRef (run es (handleStartExecution tasks))) = map status tasks"
proof -
  have "processQueue_iter (initial_state tasks) = (Break, initial_state tasks)"
    using assms by (intro processQueue_iter_deadlock) (simp_all add: initial_state_def)
  then have hs: "handleStartExecution tasks = (initial_state tasks)\<lparr>main_done := True\<rparr>"
    by (simp add: handleStartExecution_def)
  have "stuck (handleStartExecution tasks)"
    using assms by (simp add: hs stuck_def initial_state_def)
  from stuck_run [OF this, of es] show ?thesis
    by (simp add: stuck_def hs initial_state_def)
qed

text \<open>
  Claim C10. If the task list is empty or every task is completed or failed, the first loop
  pass leaves the loop: nothing is dispatched and the task list is unchanged; the wait loop
  finds its condition false at its first test, and the run goes on to synthesis with a
  placeholder result for every task.
\<close>

theorem terminal_graph_goes_to_synthesis:
  assumes "\<forall>t \<in> set tasks. status t = Completed \<or> status t = Failed"
  shows "processQueue_iter (initial_state tasks) = (Break, initial_state tasks) \<and>
         handleStartExecution tasks = (initial_state tasks)\<lparr>main_done := True\<rparr> \<and>
         inflight (handleStartExecution tasks) = [] \<and>
         tasksRef (handleStartExecution tasks) = tasks \<and>
         step Poll (handleStartExecution tasks) =
           (initial_state tasks)
             \<lparr>main_done := True, agentState := SYNTHESIZING,
              finalResults := Some (map (\<lambda>t. (t, \<lparr>res_text = ''Failed'', res_sources = []\<rparr>)) tasks)\<rparr>"
proof -
  have p: "filter (\<lambda>t. status t = Pending) tasks = []"
    using assms by (auto simp: filter_empty_conv)
  have r: "filter (\<lambda>t. status t = Running) tasks = []"
    using assms by (auto simp: filter_empty_conv)
  have it: "processQueue_iter (initial_state tasks) = (Break, initial_state tasks)"
    using p r by (simp add: processQueue_iter_def Let_def initial_state_def)
  then have hs: "handleStartExecution tasks = (initial_state tasks)\<lparr>main_done := True\<rparr>"
    by (simp add: handleStartExecution_def)
  have w: "\<not> wait_condition tasks"
    using assms by (auto simp: wait_condition_def list_ex_iff)
  show ?thesis using it hs w
    by (simp add: initial_state_def finalResults_of_def)
qed

theorem terminal_graph_goes_to_synthesis_witness:
  "map status finished_pair = [Completed, Failed] \<and>
   inflight (handleStartExecution finished_pair) = [] \<and>
   tasksRef (handleStartExecution finished_pair) = finished_pair \<and>
   agentState (step Poll (handleStartExecution finished_pair)) = SYNTHESIZING \<and>
   inflight (handleStartExecution []) = [] \<and>
   agentState (step Poll (handleStartExecution [])) = SYNTHESIZING"
proof -
  have f: "\<forall>t \<in> set finished_pair. status t = Completed \<or> status t = Failed" by code_simp
  have e: "\<forall>t \<in> set ([] :: AgentTask list). status t = Completed \<or> status t = Failed" by simp
  note full = terminal_graph_goes_to_synthesis [OF f]
  note empty = terminal_graph_goes_to_synthesis [OF e]
  from full have f1: "inflight (handleStartExecution finished_pair) = []"
    and f2: "tasksRef (handleStartExecution finished_pair) = finished_pair"
    and f3: "step Poll (handleStartExecution finished_pair) =
               (initial_state finished_pair)
                 \<lparr>main_done := True, agentState := SYNTHESIZING,
                  finalResults := Some (map (\<lambda>t. (t, \<lparr>res_text = ''Failed'', res_sources = []\<rparr>))
                                            finished_pair)\<rparr>"
    by blast+
  from empty have e1: "inflight (handleStartExecution []) = []"
    and e3: "step Poll (handleStartExecution []) =
               (initial_state [])
                 \<lparr>main_done := True, agentState := SYNTHESIZING,
                  finalResults := Some (map (\<lambda>t. (t, \<lparr>res_text = ''Failed'', res_sources = []\<rparr>)) [])\<rparr>"
    by blast+
  have "agentState (step Poll (handleStartExecution finished_pair)) = SYNTHESIZING"
    by (simp add: f3 del: step.simps)
  moreover have "agentState (step Poll (handleStartExecution [])) = SYNTHESIZING"
    by (simp add: e3 del: step.simps)
  moreover have "map status finished_pair = [Completed, Failed]" by code_simp
  ultimately show ?thesis using f1 f2 e1 by blast
qed

section \<open>The context handed to a dispatched task\<close>

lemma join_concat: "join sep (b # bs) = b @ concat (map (\<lambda>x. sep @ x) bs)"
  by (induction bs arbitrary: b) simp_all

lemma blocks_of_completed_eq:
  "blocks_of_completed m graph = map (context_block m) (filter (\<lambda>t. status t = Completed) graph)"
  by (induction graph) (auto simp: context_block_def or_else_def split: option.splits)

lemma contextString_of_graph_order:
  "contextString_of m (filter (\<lambda>t. status t = Completed) graph) = context_in_graph_order m graph"
proof (cases "blocks_of_completed m graph")
  case Nil
  then show ?thesis
    by (simp add: contextString_of_def context_in_graph_order_def blocks_of_completed_eq [symmetric])
next
  case (Cons b bs)
  then show ?thesis
    using join_concat [of "NL @ NL @ ''---'' @ NL @ NL" b bs]
    by (simp add: contextString_of_def context_in_graph_order_def blocks_of_completed_eq [symmetric])
qed

text \<open>
  Claim C4, as amended. Whenever a loop pass dispatches a task, the context string passed to
  the executor is the concatenation, over exactly the tasks that are completed at that moment
  (not only the declared dependencies), of one block per task with its role, title, goal and
  result text (\<^verbatim>\<open>No info\<close> where the result map has no text for the task's id), the blocks
  ordered by the position of the tasks in the graph and separated by a rule. A pass dispatches
  at most one task.
\<close>

theorem dispatch_context_graph_order:
  assumes "processQueue_iter s = (x, s')"
  shows "inflight s' = inflight s \<or>
         (\<exists>nextTask. inflight s' =
            inflight s @ [(nextTask, context_in_graph_order (taskResultsMap s) (tasksRef s))])"
  using assms
  by (auto simp: processQueue_iter_def Let_def updateStatus_def contextString_of_graph_order
           split: if_splits option.splits)

theorem dispatch_context_graph_order_witness:
  "processQueue_iter
     ((initial_state [demo_task ''a'' Completed Normal [], demo_task ''b'' Pending Normal []])
        \<lparr>taskResultsMap := [''a'' \<mapsto> \<lparr>res_text = ''ra'', res_sources = []\<rparr>]\<rparr>)
   = (Delay,
      (initial_state [demo_task ''a'' Completed Normal [], demo_task ''b'' Running Normal []])
        \<lparr>taskResultsMap := [''a'' \<mapsto> \<lparr>res_text = ''ra'', res_sources = []\<rparr>],
         inflight := [(demo_task ''b'' Pending Normal [],
                       ''[Context from Agent: Role a (Task: Title a)]:'' @ NL @
                       ''Goal: Goal a'' @ NL @ ''Findings: ra'')]\<rparr>) \<and>
   context_in_graph_order [''a'' \<mapsto> \<lparr>res_text = ''ra'', res_sources = []\<rparr>]
       [demo_task ''a'' Completed Normal [], demo_task ''b'' Pending Normal []]
   = ''[Context from Agent: Role a (Task: Title a)]:'' @ NL @ ''Goal: Goal a'' @ NL @ ''Findings: ra''"
proof -
  let ?s = "(initial_state [demo_task ''a'' Completed Normal [], demo_task ''b'' Pending Normal []])
              \<lparr>taskResultsMap := [''a'' \<mapsto> \<lparr>res_text = ''ra'', res_sources = []\<rparr>]\<rparr>"
  let ?s' = "(initial_state [demo_task ''a'' Completed Normal [], demo_task ''b'' Running Normal []])
        \<lparr>taskResultsMap := [''a'' \<mapsto> \<lparr>res_text = ''ra'', res_sources = []\<rparr>],
         inflight := [(demo_task ''b'' Pending Normal [],
                       ''[Context from Agent: Role a (Task: Title a)]:'' @ NL @
                       ''Goal: Goal a'' @ NL @ ''Findings: ra'')]\<rparr>"
  have h: "processQueue_iter ?s = (Delay, ?s')"
    by (simp add: processQueue_iter_def executableTasks_def nextTask_of_def updateStatus_def
          updateStatus_list_def MAX_CONCURRENCY_def contextString_of_def context_block_def
          or_else_def Let_def initial_state_def demo_task_def)
  from dispatch_context_graph_order [OF h]
  have "context_in_graph_order [''a'' \<mapsto> \<lparr>res_text = ''ra'', res_sources = []\<rparr>]
          [demo_task ''a'' Completed Normal [], demo_task ''b'' Pending Normal []]
        = ''[Context from Agent: Role a (Task: Title a)]:'' @ NL @ ''Goal: Goal a'' @ NL @ ''Findings: ra''"
    by (simp add: initial_state_def)
  with h show ?thesis by blast
qed

text \<open>
  Claim C4 as stated fails where tasks complete in an order other than that of the graph. Of
  four independent tasks \<open>a\<close>, \<open>b\<close>, \<open>c\<close>, \<open>d\<close>, first \<open>a\<close> and \<open>b\<close> run; \<open>b\<close> completes
  first (and \<open>c\<close> starts), then \<open>a\<close> completes and \<open>d\<close> is dispatched. The context of \<open>d\<close>
  has the block of \<open>a\<close> before the block of \<open>b\<close>: the order of the graph, not the order of
  completion.
\<close>

theorem context_completion_order_counterexample:
  "map status (tasksRef (run [Tick_main, Resolve 1 (answering_platform ''rb'')]
                             (handleStartExecution independent_four)))
     = [Running, Completed, Running, Pending] \<and>
   map status (tasksRef (run [Tick_main, Resolve 1 (answering_platform ''rb''),
                              Resolve 0 (answering_platform ''ra'')]
                             (handleStartExecution independent_four)))
     = [Completed, Completed, Running, Running] \<and>
   last (inflight (run [Tick_main, Resolve 1 (answering_platform ''rb''),
                        Resolve 0 (answering_platform ''ra'')]
                       (handleStartExecution independent_four)))
     = (demo_task ''d'' Pending Normal [],
        ''[Context from Agent: Role a (Task: Title a)]:'' @ NL @ ''Goal: Goal a'' @ NL @ ''Findings: ra'' @
        NL @ NL @ ''---'' @ NL @ NL @
        ''[Context from Agent: Role b (Task: Title b)]:'' @ NL @ ''Goal: Goal b'' @ NL @ ''Findings: rb'') \<and>
   snd (last (inflight (run [Tick_main, Resolve 1 (answering_platform ''rb''),
                        Resolve 0 (answering_platform ''ra'')]
                       (handleStartExecution independent_four))))
     \<noteq> ''[Context from Agent: Role b (Task: Title b)]:'' @ NL @ ''Goal: Goal b'' @ NL @ ''Findings: rb'' @
        NL @ NL @ ''---'' @ NL @ NL @
        ''[Context from Agent: Role a (Task: Title a)]:'' @ NL @ ''Goal: Goal a'' @ NL @ ''Findings: ra''"
  by code_simp

section \<open>The executor never rejects\<close>

lemma taskResultsMap_processQueue_iter:
  "taskResultsMap (snd (processQueue_iter s)) = taskResultsMap s"
  by (simp add: processQueue_iter_def Let_def updateStatus_def split: option.splits)

lemma taskResultsMap_spawn_processQueue:
  "taskResultsMap (spawn_processQueue s) = taskResultsMap s"
  using taskResultsMap_processQueue_iter [of s]
  by (cases "processQueue_iter s") (simp add: spawn_processQueue_def split: loop_exit.splits)

lemma completed_id_survives_iter:
  assumes "\<forall>t \<in> set (tasksRef s). task_id t = j \<longrightarrow> status t = Completed"
  shows "\<forall>t \<in> set (tasksRef (snd (processQueue_iter s))). task_id t = j \<longrightarrow> status t = Completed"
  using tasksRef_processQueue_iter [of s]
proof
  assume "tasksRef (snd (processQueue_iter s)) = tasksRef s"
  with assms show ?thesis by simp
next
  assume "\<exists>nt \<in> set (executableTasks (tasksRef s)).
      tasksRef (snd (processQueue_iter s)) = updateStatus_list (task_id nt) Running (tasksRef s)"
  then obtain nt where nt: "nt \<in> set (executableTasks (tasksRef s))"
    and eq: "tasksRef (snd (processQueue_iter s)) = updateStatus_list (task_id nt) Running (tasksRef s)"
    by blast
  from executableTasks_mem [OF nt] have "nt \<in> set (tasksRef s)" "status nt = Pending" by auto
  with assms have "task_id nt \<noteq> j" by auto
  then show ?thesis using assms by (auto simp: eq updateStatus_list_def)
qed

text \<open>
  Claim C6. For every task, context and behaviour of the platform, the promise of
  \<open>executeResearchTask\<close> is fulfilled, never rejected. If the body of its \<^verbatim>\<open>try\<close> block
  throws, the result is the placeholder (an explanatory text and no sources); otherwise it is
  the result of the body. In both cases the scheduler runs the same completion handler on the
  result: the result is stored under the task's id and every task with that id has the status
  completed, not failed.
\<close>

theorem executor_always_resolves:
  "\<exists>r. executeResearchTask pf task ctx = Inr r \<and>
        (\<forall>e. executeResearchTask_try pf task ctx = Inl e \<longrightarrow>
           r = \<lparr>res_text = ''Failed to retrieve information for this task.'', res_sources = []\<rparr>) \<and>
        (\<forall>r'. executeResearchTask_try pf task ctx = Inr r' \<longrightarrow> r = r') \<and>
        (\<forall>s k. k < length (inflight s) \<and> inflight s ! k = (task, ctx) \<longrightarrow>
           step (Resolve k pf) s =
             then_callback task r (s\<lparr>inflight := take k (inflight s) @ drop (Suc k) (inflight s)\<rparr>) \<and>
           taskResultsMap (step (Resolve k pf) s) (task_id task) = Some r \<and>
           (\<forall>t \<in> set (tasksRef (step (Resolve k pf) s)).
              task_id t = task_id task \<longrightarrow> status t = Completed))"
proof -
  obtain r where r: "executeResearchTask pf task ctx = Inr r"
    using executeResearchTask_Inr by blast
  have fail: "\<forall>e. executeResearchTask_try pf task ctx = Inl e \<longrightarrow>
           r = \<lparr>res_text = ''Failed to retrieve information for this task.'', res_sources = []\<rparr>"
    using r by (auto simp: executeResearchTask_def)
  have ok: "\<forall>r'. executeResearchTask_try pf task ctx = Inr r' \<longrightarrow> r = r'"
    using r by (auto simp: executeResearchTask_def)
  have sched: "step (Resolve k pf) s =
             then_callback task r (s\<lparr>inflight := take k (inflight s) @ drop (Suc k) (inflight s)\<rparr>) \<and>
           taskResultsMap (step (Resolve k pf) s) (task_id task) = Some r \<and>
           (\<forall>t \<in> set (tasksRef (step (Resolve k pf) s)).
              task_id t = task_id task \<longrightarrow> status t = Completed)"
    if k: "k < length (inflight s)" and tc: "inflight s ! k = (task, ctx)" for s k
  proof -
    define s0 where "s0 = s\<lparr>inflight := take k (inflight s) @ drop (Suc k) (inflight s)\<rparr>"
    define s2 where "s2 = updateStatus (task_id task) Completed
        (s0\<lparr>taskResultsMap := (taskResultsMap s0)(task_id task \<mapsto> r)\<rparr>)"
    have st: "step (Resolve k pf) s = then_callback task r s0"
      using k tc r by (simp add: s0_def)
    have tc2: "then_callback task r s0 = spawn_processQueue s2"
      by (simp add: then_callback_def s2_def Let_def)
    have m: "taskResultsMap (spawn_processQueue s2) (task_id task) = Some r"
      by (simp add: taskResultsMap_spawn_processQueue) (simp add: s2_def updateStatus_def)
    have "\<forall>t \<in> set (tasksRef s2). task_id t = task_id task \<longrightarrow> status t = Completed"
      by (auto simp: s2_def updateStatus_def updateStatus_list_def)
    from completed_id_survives_iter [OF this]
    have "\<forall>t \<in> set (tasksRef (spawn_processQueue s2)). task_id t = task_id task \<longrightarrow> status t = Completed"
      by (simp add: tasksRef_spawn_processQueue)
    with st tc2 m show ?thesis by (simp add: s0_def)
  qed
  from r fail ok sched show ?thesis by blast
qed

theorem executor_always_resolves_witness:
  "executeResearchTask_try failing_platform (demo_task ''a'' Pending Normal []) [] = Inl Thrown \<and>
   inflight (handleStartExecution chain_pair) = [(demo_task ''a'' Pending Normal [], [])] \<and>
   map status (tasksRef (step (Resolve 0 failing_platform) (handleStartExecution chain_pair)))
      = [Completed, Running] \<and>
   taskResultsMap (step (Resolve 0 failing_platform) (handleStartExecution chain_pair))
                  (task_id (demo_task ''a'' Pending Normal []))
      = Some \<lparr>res_text = ''Failed to retrieve information for this task.'', res_sources = []\<rparr>"
proof -
  have t: "executeResearchTask_try failing_platform (demo_task ''a'' Pending Normal []) [] = Inl Thrown"
    by code_simp
  have i: "inflight (handleStartExecution chain_pair) = [(demo_task ''a'' Pending Normal [], [])]"
    by code_simp
  have s: "map status (tasksRef (step (Resolve 0 failing_platform) (handleStartExecution chain_pair)))
      = [Completed, Running]"
    by code_simp
  from executor_always_resolves [of failing_platform "demo_task ''a'' Pending Normal []" "[]"]
  obtain r where
    r: "r = \<lparr>res_text = ''Failed to retrieve information for this task.'', res_sources = []\<rparr>"
    and m: "\<forall>s k. k < length (inflight s) \<and> inflight s ! k = (demo_task ''a'' Pending Normal [], []) \<longrightarrow>
           taskResultsMap (step (Resolve k failing_platform) s) (task_id (demo_task ''a'' Pending Normal [])) = Some r"
    using t by auto
  have "taskResultsMap (step (Resolve 0 failing_platform) (handleStartExecution chain_pair))
                  (task_id (demo_task ''a'' Pending Normal [])) = Some r"
    using m [rule_format, of 0 "handleStartExecution chain_pair"] i by simp
  with t i s r show ?thesis by simp
qed

end
